theory Spec2Isabelle
  imports Main "HOL-Library.Sublist"
begin

text \<open>
  A shallow embedding of the extraction and deduplication pipeline of the contact scraper:
  \<open>utils.py\<close> (phone canonicalization, cross-document deduplication),
  \<open>normalizer.py\<close> (field normalization), \<open>parser.py\<close> (the patterns, the four
  extractors and the per-document deduplication) and the record flow of \<open>main.py\<close>.
  The definitions come first, the properties after them.
\<close>

section \<open>Python strings\<close>

text \<open>
  A Python \<open>str\<close> is modelled as a \<open>string\<close>, each \<open>char\<close> read as the code point
  of the same number (U+0000 to U+00FF). The predicates below are Python's on that range.
\<close>

definition isspace :: "char \<Rightarrow> bool" where
  \<comment> \<open>\<open>str.isspace\<close> and the regex class \<open>\s\<close>: TAB..CR, FS..US, space, NEL, NBSP.\<close>
  "isspace c =
     (let n = (of_char c :: nat)
      in (9 \<le> n \<and> n \<le> 13) \<or> (28 \<le> n \<and> n \<le> 32) \<or> n = 133 \<or> n = 160)"

definition isdigit :: "char \<Rightarrow> bool" where
  \<comment> \<open>\<open>str.isdigit\<close>: the ASCII digits and the superscripts U+00B2, U+00B3, U+00B9.\<close>
  "isdigit c =
     (let n = (of_char c :: nat)
      in (48 \<le> n \<and> n \<le> 57) \<or> n = 178 \<or> n = 179 \<or> n = 185)"

definition isalnum :: "char \<Rightarrow> bool" where
  \<comment> \<open>\<open>str.isalnum\<close>: letters, digits and numeric characters of the range.\<close>
  "isalnum c =
     (let n = (of_char c :: nat)
      in (48 \<le> n \<and> n \<le> 57) \<or> (65 \<le> n \<and> n \<le> 90) \<or> (97 \<le> n \<and> n \<le> 122)
         \<or> n = 170 \<or> n = 178 \<or> n = 179 \<or> n = 181 \<or> n = 185 \<or> n = 186
         \<or> (188 \<le> n \<and> n \<le> 190) \<or> (192 \<le> n \<and> n \<le> 214)
         \<or> (216 \<le> n \<and> n \<le> 246) \<or> 248 \<le> n)"

definition iscased :: "char \<Rightarrow> bool" where
  \<comment> \<open>the characters that have a case: the letters but U+00D7 and U+00F7 are none.\<close>
  "iscased c =
     (let n = (of_char c :: nat)
      in (65 \<le> n \<and> n \<le> 90) \<or> (97 \<le> n \<and> n \<le> 122) \<or> n = 170 \<or> n = 181 \<or> n = 186
         \<or> (192 \<le> n \<and> n \<le> 214) \<or> (216 \<le> n \<and> n \<le> 246) \<or> 248 \<le> n)"

definition lower_code :: "nat \<Rightarrow> nat" where
  \<comment> \<open>lower case of a code point: A..Z and U+00C0..U+00DE (but U+00D7) move up by 32.\<close>
  "lower_code n =
     (if (65 \<le> n \<and> n \<le> 90) \<or> (192 \<le> n \<and> n \<le> 222 \<and> n \<noteq> 215) then n + 32 else n)"

definition upper_code :: "nat \<Rightarrow> nat" where
  \<comment> \<open>upper case of a code point, where it is one code point of the range: a..z and
      U+00E0..U+00FE (but U+00F7) move down by 32. U+00B5, U+00DF and U+00FF have none
      there and are left as they are; \<open>title_char\<close> treats the three itself.\<close>
  "upper_code n =
     (if (97 \<le> n \<and> n \<le> 122) \<or> (224 \<le> n \<and> n \<le> 254 \<and> n \<noteq> 247) then n - 32 else n)"

definition lower_char :: "char \<Rightarrow> char" where
  "lower_char c = char_of (lower_code (of_char c))"

definition upper_char :: "char \<Rightarrow> char" where
  "upper_char c = char_of (upper_code (of_char c))"

definition lower :: "string \<Rightarrow> string" where
  \<comment> \<open>\<open>s.lower()\<close>\<close>
  "lower s = map lower_char s"

definition strip :: "string \<Rightarrow> string" where
  \<comment> \<open>\<open>s.strip()\<close>\<close>
  "strip s = rev (dropWhile isspace (rev (dropWhile isspace s)))"

definition startswith :: "string \<Rightarrow> string \<Rightarrow> bool" where
  \<comment> \<open>\<open>s.startswith(p)\<close>\<close>
  "startswith s p = (take (length p) s = p)"

definition contains :: "string \<Rightarrow> string \<Rightarrow> bool" where
  \<comment> \<open>\<open>sub in s\<close>\<close>
  "contains s sub = sublist sub s"

fun split_on :: "char \<Rightarrow> string \<Rightarrow> string list" where
  \<comment> \<open>\<open>s.split(d)\<close> for a one-character separator\<close>
  "split_on d [] = [[]]"
| "split_on d (c # cs) =
     (let r = split_on d cs in if c = d then [] # r else (c # hd r) # tl r)"

fun split_words :: "string \<Rightarrow> string \<Rightarrow> string list" where
  \<comment> \<open>\<open>s.split()\<close>, with the word read so far\<close>
  "split_words cur [] = (if cur = [] then [] else [cur])"
| "split_words cur (c # cs) =
     (if isspace c then (if cur = [] then split_words [] cs else cur # split_words [] cs)
      else split_words (cur @ [c]) cs)"

fun join :: "string \<Rightarrow> string list \<Rightarrow> string" where
  \<comment> \<open>\<open>sep.join(ws)\<close>\<close>
  "join sep [] = []"
| "join sep [w] = w"
| "join sep (w # ws) = w @ sep @ join sep ws"

definition title_char :: "char \<Rightarrow> string option" where
  \<comment> \<open>the title case of one character. That of U+00DF is \<open>Ss\<close>; that of U+00B5 is
      U+039C and that of U+00FF is U+0178, which no \<open>string\<close> holds: \<open>None\<close>.\<close>
  "title_char c =
     (let n = (of_char c :: nat)
      in if n = 223 then Some ''Ss''
         else if n = 181 \<or> n = 255 then None
         else Some [upper_char c])"

fun title_from :: "bool \<Rightarrow> string \<Rightarrow> string option" where
  \<comment> \<open>\<open>s.title()\<close>, with whether the previous character is cased: a character after a
      cased one is lowered, any other is put in title case\<close>
  "title_from previous_is_cased [] = Some []"
| "title_from previous_is_cased (c # cs) =
     (case (if previous_is_cased then Some [lower_char c] else title_char c) of
        None \<Rightarrow> None
      | Some t \<Rightarrow> map_option (\<lambda>rest. t @ rest) (title_from (iscased c) cs))"

definition title :: "string \<Rightarrow> string option" where
  \<comment> \<open>\<open>s.title()\<close>; \<open>None\<close> when the result has a character beyond U+00FF\<close>
  "title s = title_from False s"

fun replace_skip :: "string \<Rightarrow> nat \<Rightarrow> string \<Rightarrow> string" where
  \<comment> \<open>\<open>s.replace(old, '')\<close>, with the number of characters of a found \<open>old\<close> still to drop\<close>
  "replace_skip old k [] = []"
| "replace_skip old (Suc k) (c # cs) = replace_skip old k cs"
| "replace_skip old 0 (c # cs) =
     (if old \<noteq> [] \<and> prefix old (c # cs) then replace_skip old (length old - 1) cs
      else c # replace_skip old 0 cs)"

definition remove_all :: "string \<Rightarrow> string \<Rightarrow> string" where
  \<comment> \<open>\<open>s.replace(old, '')\<close>\<close>
  "remove_all old s = replace_skip old 0 s"

section \<open>Python regular expressions\<close>

text \<open>
  The patterns of the parser are values of \<open>regex\<close>, and \<open>run\<close> is the backtracking
  matcher of Python's \<open>re\<close>: it lists, in the order the matcher tries them, the states
  in which the pattern can end when started in a state of the subject \<open>s\<close>. A state is the
  position reached and the span of group 1 (the patterns have at most one group). The
  first state of the list is the match Python reports: quantifiers are greedy and the
  left alternative goes first. The flag \<open>ic\<close> is \<open>re.IGNORECASE\<close>.
\<close>

datatype cset = Chr char | Range char char | Space | Digit

datatype regex =
    Eps
  | Lit char
  | Cls "cset list"
  | WordB
  | Seq regex regex
  | Alt regex regex
  | Rep nat "nat option" regex
  | Group regex

fun cset_has :: "cset \<Rightarrow> nat \<Rightarrow> bool" where
  \<comment> \<open>a member of a character class, on code points; \<open>\d\<close> is the decimal digits\<close>
  "cset_has (Chr a) n = (n = of_char a)"
| "cset_has (Range a b) n = (of_char a \<le> n \<and> n \<le> of_char b)"
| "cset_has Space n = isspace (char_of n)"
| "cset_has Digit n = (48 \<le> n \<and> n \<le> 57)"

definition cls_match :: "bool \<Rightarrow> cset list \<Rightarrow> char \<Rightarrow> bool" where
  \<comment> \<open>under \<open>re.IGNORECASE\<close> a character is in the class when it or its other case is\<close>
  "cls_match ic items c =
     (let n = (of_char c :: nat)
      in list_ex (\<lambda>it. cset_has it n) items
         \<or> (ic \<and> (list_ex (\<lambda>it. cset_has it (lower_code n)) items
                  \<or> list_ex (\<lambda>it. cset_has it (upper_code n)) items)))"

definition lit_match :: "bool \<Rightarrow> char \<Rightarrow> char \<Rightarrow> bool" where
  "lit_match ic a c =
     (if ic then lower_code (of_char c) = lower_code (of_char a) else c = a)"

definition isword :: "char \<Rightarrow> bool" where
  \<comment> \<open>\<open>\w\<close>\<close>
  "isword c = (isalnum c \<or> c = CHR ''_'')"

definition word_boundary :: "string \<Rightarrow> nat \<Rightarrow> bool" where
  \<comment> \<open>\<open>\b\<close> at position \<open>i\<close>: a word character on exactly one side\<close>
  "word_boundary s i =
     ((0 < i \<and> i \<le> length s \<and> isword (s ! (i - 1))) \<noteq> (i < length s \<and> isword (s ! i)))"

type_synonym mstate = "nat \<times> (nat \<times> nat) option"

function run :: "bool \<Rightarrow> string \<Rightarrow> regex \<Rightarrow> mstate \<Rightarrow> mstate list" where
  "run ic s Eps st = [st]"
| "run ic s (Lit a) (i, g) =
     (if i < length s \<and> lit_match ic a (s ! i) then [(Suc i, g)] else [])"
| "run ic s (Cls items) (i, g) =
     (if i < length s \<and> cls_match ic items (s ! i) then [(Suc i, g)] else [])"
| "run ic s WordB (i, g) = (if word_boundary s i then [(i, g)] else [])"
| "run ic s (Seq a b) st = concat (map (run ic s b) (run ic s a st))"
| "run ic s (Alt a b) st = run ic s a st @ run ic s b st"
| "run ic s (Group a) (i, g) = map (\<lambda>(j, _). (j, Some (i, j))) (run ic s a (i, g))"
| "run ic s (Rep lo hi a) (i, g) =
     (if hi = Some 0 then [(i, g)]
      else concat (map (run ic s (Rep (lo - 1) (map_option (\<lambda>h. h - 1) hi) a))
                       (filter (\<lambda>(j, _). i < j \<and> j \<le> length s) (run ic s a (i, g))))
           @ (if lo = 0 then [(i, g)] else []))"
  by pat_completeness auto
termination
  by (relation "inv_image (less_than <*lex*> less_than)
        (\<lambda>(ic, s, r, (i, g)). (size r, length s - i))") auto

text \<open>
  \<open>Rep lo hi a\<close> is \<open>a{lo,hi}\<close>, greedy: one more \<open>a\<close> is tried before stopping. An
  iteration of \<open>a\<close> that consumes nothing is not repeated; no pattern of the parser has
  one (\<open>patterns_repeats_consume\<close> below), so for them the filter keeps every state.
\<close>

fun seqs :: "regex list \<Rightarrow> regex" where
  "seqs [] = Eps"
| "seqs [r] = r"
| "seqs (r # rs) = Seq r (seqs rs)"

definition Str :: "string \<Rightarrow> regex" where
  "Str s = seqs (map Lit s)"

definition Opt :: "regex \<Rightarrow> regex" where
  "Opt r = Rep 0 (Some 1) r"

definition Plus :: "regex \<Rightarrow> regex" where
  "Plus r = Rep 1 None r"

type_synonym rmatch = "nat \<times> nat \<times> (nat \<times> nat) option"

definition match_at :: "bool \<Rightarrow> regex \<Rightarrow> string \<Rightarrow> nat \<Rightarrow> rmatch option" where
  \<comment> \<open>the match that starts at position \<open>i\<close>: start, end and the span of group 1\<close>
  "match_at ic r s i =
     (case run ic s r (i, None) of [] \<Rightarrow> None | (j, g) # _ \<Rightarrow> Some (i, j, g))"

fun first_match :: "bool \<Rightarrow> regex \<Rightarrow> string \<Rightarrow> nat list \<Rightarrow> rmatch option" where
  "first_match ic r s [] = None"
| "first_match ic r s (i # is) =
     (case match_at ic r s i of Some m \<Rightarrow> Some m | None \<Rightarrow> first_match ic r s is)"

definition re_search :: "bool \<Rightarrow> regex \<Rightarrow> string \<Rightarrow> rmatch option" where
  \<comment> \<open>\<open>pattern.search(s)\<close>: the match at the leftmost position that has one\<close>
  "re_search ic r s = first_match ic r s [0..<Suc (length s)]"

definition re_match :: "bool \<Rightarrow> regex \<Rightarrow> string \<Rightarrow> rmatch option" where
  \<comment> \<open>\<open>pattern.match(s)\<close>: the match at position 0; it need not reach the end of \<open>s\<close>\<close>
  "re_match ic r s = match_at ic r s 0"

definition slice :: "string \<Rightarrow> nat \<Rightarrow> nat \<Rightarrow> string" where
  \<comment> \<open>\<open>s[i:j]\<close>\<close>
  "slice s i j = take (j - i) (drop i s)"

fun group0 :: "string \<Rightarrow> rmatch \<Rightarrow> string" where
  \<comment> \<open>\<open>m.group(0)\<close>\<close>
  "group0 s (i, j, g) = slice s i j"

fun group1 :: "string \<Rightarrow> rmatch \<Rightarrow> string option" where
  \<comment> \<open>\<open>m.group(1)\<close>; \<open>None\<close> when the group took no part in the match\<close>
  "group1 s (i, j, None) = None"
| "group1 s (i, j, Some (a, b)) = Some (slice s a b)"

fun consuming :: "regex \<Rightarrow> bool" where
  \<comment> \<open>a pattern whose every match takes at least one character (a sufficient test)\<close>
  "consuming Eps = False"
| "consuming (Lit a) = True"
| "consuming (Cls items) = True"
| "consuming WordB = False"
| "consuming (Seq a b) = (consuming a \<or> consuming b)"
| "consuming (Alt a b) = (consuming a \<and> consuming b)"
| "consuming (Rep lo hi a) = (0 < lo \<and> hi \<noteq> Some 0 \<and> consuming a)"
| "consuming (Group a) = consuming a"

fun repeats_consume :: "regex \<Rightarrow> bool" where
  \<comment> \<open>every repeated part of the pattern is \<open>consuming\<close>\<close>
  "repeats_consume (Seq a b) = (repeats_consume a \<and> repeats_consume b)"
| "repeats_consume (Alt a b) = (repeats_consume a \<and> repeats_consume b)"
| "repeats_consume (Rep lo hi a) = (consuming a \<and> repeats_consume a)"
| "repeats_consume (Group a) = repeats_consume a"
| "repeats_consume r = True"

section \<open>Contact records\<close>

text \<open>
  A contact is a Python \<open>dict\<close> from field names to strings; the pipeline uses the keys
  \<open>name\<close>, \<open>email\<close>, \<open>phone\<close> and \<open>source_url\<close>.
\<close>

type_synonym contact = "string \<rightharpoonup> string"

definition dict_get :: "contact \<Rightarrow> string \<Rightarrow> string \<Rightarrow> string" where
  \<comment> \<open>\<open>d.get(k, default)\<close>\<close>
  "dict_get d k dflt = (case d k of None \<Rightarrow> dflt | Some v \<Rightarrow> v)"

definition truthy :: "string option \<Rightarrow> bool" where
  \<comment> \<open>Python truth of \<open>d.get(k)\<close>: \<open>None\<close> and the empty string are false.\<close>
  "truthy v = (case v of None \<Rightarrow> False | Some s \<Rightarrow> s \<noteq> [])"

definition or_empty :: "string option \<Rightarrow> string" where
  \<comment> \<open>\<open>v or ''\<close>\<close>
  "or_empty v = (case v of None \<Rightarrow> [] | Some s \<Rightarrow> s)"

section \<open>utils.py\<close>

definition canonical_phone :: "string \<Rightarrow> string" where
  "canonical_phone phone0 =
     (if phone0 = [] then []
      else
        let phone = strip phone0;
            has_plus = startswith phone ''+'';
            digits = filter isdigit phone
        in if has_plus \<and> digits \<noteq> [] then ''+'' @ digits else digits)"

definition dedupe_key :: "contact \<Rightarrow> string \<times> string" where
  \<comment> \<open>the \<open>key\<close> of the loop body of \<open>dedupe_records\<close>\<close>
  "dedupe_key record =
     (let email = lower (or_empty (record ''email''));
          phone = canonical_phone (or_empty (record ''phone''))
      in (email, phone))"

fun dedupe_loop :: "(string \<times> string) set \<Rightarrow> contact list \<Rightarrow> contact list" where
  \<comment> \<open>the \<open>for record in records\<close> loop; the result is what it appends to \<open>unique_records\<close>\<close>
  "dedupe_loop seen [] = []"
| "dedupe_loop seen (record # records) =
     (let key = dedupe_key record
      in if key \<notin> seen then record # dedupe_loop (insert key seen) records
         else dedupe_loop seen records)"

definition dedupe_records :: "contact list \<Rightarrow> contact list" where
  "dedupe_records records = dedupe_loop {} records"

section \<open>normalizer.py\<close>

definition normalize_name :: "string \<Rightarrow> string option" where
  \<comment> \<open>\<open>None\<close> only as \<open>title\<close> gives it: the code returns a string there too, one that
      the model cannot hold\<close>
  "normalize_name name = title (join '' '' (split_words [] name))"




section \<open>parser.py\<close>

text \<open>All three patterns are compiled with \<open>re.IGNORECASE\<close>.\<close>

definition EMAIL_RE :: regex where
  \<comment> \<open>\<^verbatim>\<open>\b[A-Za-z0-9._%+-]+@[A-Za-z0-9.-]+\.[A-Z|a-z]{2,}\b\<close>\<close>
  "EMAIL_RE = seqs
     [WordB,
      Plus (Cls [Range CHR ''A'' CHR ''Z'', Range CHR ''a'' CHR ''z'', Range CHR ''0'' CHR ''9'',
                 Chr CHR ''.'', Chr CHR ''_'', Chr CHR ''%'', Chr CHR ''+'', Chr CHR ''-'']),
      Lit CHR ''@'',
      Plus (Cls [Range CHR ''A'' CHR ''Z'', Range CHR ''a'' CHR ''z'', Range CHR ''0'' CHR ''9'',
                 Chr CHR ''.'', Chr CHR ''-'']),
      Lit CHR ''.'',
      Rep 2 None (Cls [Range CHR ''A'' CHR ''Z'', Chr CHR ''|'', Range CHR ''a'' CHR ''z'']),
      WordB]"

definition sep :: regex where
  \<comment> \<open>\<^verbatim>\<open>[\s.-]?\<close>\<close>
  "sep = Opt (Cls [Space, Chr CHR ''.'', Chr CHR ''-''])"

definition PHONE_RE :: regex where
  \<comment> \<open>\<^verbatim>\<open>(?:\+?\d{1,3}[\s.-]?)?(?:\(?\d{2,4}\)?[\s.-]?)?\d{3,4}[\s.-]?\d{3,4}(?:[\s.-]?\d{1,4})?\<close>\<close>
  "PHONE_RE = seqs
     [Opt (seqs [Opt (Lit CHR ''+''), Rep 1 (Some 3) (Cls [Digit]), sep]),
      Opt (seqs [Opt (Lit CHR ''(''), Rep 2 (Some 4) (Cls [Digit]), Opt (Lit CHR '')''), sep]),
      Rep 3 (Some 4) (Cls [Digit]), sep, Rep 3 (Some 4) (Cls [Digit]),
      Opt (seqs [sep, Rep 1 (Some 4) (Cls [Digit])])]"

definition NAME_PATTERN :: regex where
  \<comment> \<open>\<^verbatim>\<open>(?:name|contact|person)[\s:=-]+([A-Z][a-z]+(?:\s+[A-Z][a-z]+)+)\<close>\<close>
  "NAME_PATTERN = seqs
     [Alt (Str ''name'') (Alt (Str ''contact'') (Str ''person'')),
      Plus (Cls [Space, Chr CHR '':'', Chr CHR ''='', Chr CHR ''-'']),
      Group (seqs
        [Cls [Range CHR ''A'' CHR ''Z''],
         Plus (Cls [Range CHR ''a'' CHR ''z'']),
         Plus (seqs [Plus (Cls [Space]), Cls [Range CHR ''A'' CHR ''Z''],
                     Plus (Cls [Range CHR ''a'' CHR ''z''])])])]"

text \<open>
  The parsed document is what the parser asks BeautifulSoup for. A table is the list of
  its \<open>tr\<close> rows, a row the \<open>get_text(strip=True)\<close> of each of its \<open>th\<close> and \<open>td\<close> cells;
  an anchor is the \<open>href\<close> and the stripped text of an \<open>a\<close> element that has an \<open>href\<close>;
  an element is its class tokens, its \<open>id\<close> and its stripped text; \<open>get_text\<close> is the
  text of the whole document.
\<close>

record element =
  classes :: "string list"
  ident :: "string option"
  elem_text :: string

record soup =
  tables :: "string list list list"
  anchors :: "(string \<times> string) list"
  elements :: "element list"
  get_text :: string

type_synonym columns = "nat option \<times> nat option \<times> nat option"

fun map_columns :: "columns \<Rightarrow> (nat \<times> string) list \<Rightarrow> columns" where
  \<comment> \<open>the \<open>for idx, header in enumerate(headers)\<close> loop\<close>
  "map_columns cols [] = cols"
| "map_columns (name_idx, email_idx, phone_idx) ((idx, header) # rest) =
     (if contains header ''name'' \<or> contains header ''contact'' \<or> contains header ''person''
      then map_columns (Some idx, email_idx, phone_idx) rest
      else if contains header ''email'' \<or> contains header ''mail''
      then map_columns (name_idx, Some idx, phone_idx) rest
      else if contains header ''phone'' \<or> contains header ''tel'' \<or> contains header ''mobile''
      then map_columns (name_idx, email_idx, Some idx) rest
      else map_columns (name_idx, email_idx, phone_idx) rest)"

definition idx_truthy :: "nat option \<Rightarrow> bool" where
  \<comment> \<open>Python truth of an index: \<open>None\<close> and \<open>0\<close> are false.\<close>
  "idx_truthy v = (case v of None \<Rightarrow> False | Some i \<Rightarrow> i \<noteq> 0)"

definition put_cell :: "contact \<Rightarrow> string \<Rightarrow> nat option \<Rightarrow> string list \<Rightarrow> contact" where
  \<comment> \<open>\<open>if idx is not None and idx < len(cells): contact[field] = cells[idx]\<close>\<close>
  "put_cell contact field idx cells =
     (case idx of
        None \<Rightarrow> contact
      | Some i \<Rightarrow> if i < length cells then contact(field \<mapsto> cells ! i) else contact)"

definition fill_from :: "regex \<Rightarrow> string \<Rightarrow> string \<Rightarrow> contact \<Rightarrow> contact" where
  \<comment> \<open>\<open>if not contact.get(field): m = pattern.search(text); if m: contact[field] = m.group(0)\<close>\<close>
  "fill_from pattern field txt contact =
     (if truthy (contact field) then contact
      else case re_search True pattern txt of
             None \<Rightarrow> contact
           | Some m \<Rightarrow> contact(field \<mapsto> group0 txt m))"

fun fallback :: "contact \<Rightarrow> string list \<Rightarrow> contact" where
  \<comment> \<open>the \<open>for cell in cells\<close> loop\<close>
  "fallback contact [] = contact"
| "fallback contact (txt # rest) =
     fallback (fill_from PHONE_RE ''phone'' txt (fill_from EMAIL_RE ''email'' txt contact)) rest"

definition row_contact :: "columns \<Rightarrow> string list \<Rightarrow> contact list" where
  \<comment> \<open>the body of the \<open>for row in rows[start_idx:]\<close> loop: what it appends\<close>
  "row_contact cols cells =
     (case cols of (name_idx, email_idx, phone_idx) \<Rightarrow>
        if cells = [] then []
        else
          let c0 = Map.empty;
              c1 = put_cell c0 ''name'' name_idx cells;
              c2 = put_cell c1 ''email'' email_idx cells;
              c3 = put_cell c2 ''phone'' phone_idx cells;
              contact = fallback c3 cells
          in if dom contact \<noteq> {} then [contact] else [])"

definition table_contacts :: "string list list \<Rightarrow> contact list" where
  \<comment> \<open>the body of the \<open>for table in soup.find_all('table')\<close> loop\<close>
  "table_contacts rows =
     (if rows = [] then []
      else
        let headers = map lower (hd rows);
            cols = map_columns (None, None, None) (enumerate 0 headers)
        in case cols of (name_idx, email_idx, phone_idx) \<Rightarrow>
             let start_idx =
                   (if idx_truthy name_idx \<or> idx_truthy email_idx \<or> idx_truthy phone_idx
                    then 1 else 0 :: nat)
             in concat (map (row_contact cols) (drop start_idx rows)))"

definition extract_from_tables :: "soup \<Rightarrow> contact list" where
  "extract_from_tables sp = concat (map table_contacts (tables sp))"

definition mailto_contact :: "string \<times> string \<Rightarrow> contact list" where
  \<comment> \<open>the body of the \<open>for link in ...\<close> loop\<close>
  "mailto_contact link =
     (case link of (href, name) \<Rightarrow>
        let email = strip (hd (split_on CHR ''?'' (remove_all ''mailto:'' href)))
        in if re_match True EMAIL_RE email \<noteq> None
           then [if name \<noteq> [] \<and> name \<noteq> email
                 then [''email'' \<mapsto> email, ''name'' \<mapsto> name]
                 else [''email'' \<mapsto> email]]
           else [])"

definition extract_mailto_links :: "soup \<Rightarrow> contact list" where
  \<comment> \<open>the anchors are those whose \<open>href\<close> the pattern \<^verbatim>\<open>^mailto:\<close> (IGNORECASE) finds\<close>
  "extract_mailto_links sp =
     concat (map mailto_contact
       (filter (\<lambda>(href, name). re_match True (Str ''mailto:'') href \<noteq> None) (anchors sp)))"








definition line_contact :: "string \<Rightarrow> contact list" where
  \<comment> \<open>the body of the \<open>for line in lines\<close> loop; group 1 of \<open>NAME_PATTERN\<close> takes part
      in every match\<close>
  "line_contact line0 =
     (let line = strip line0
      in if line = [] then []
         else
           let c0 = Map.empty;
               c1 = (case re_search True EMAIL_RE line of
                       None \<Rightarrow> c0 | Some m \<Rightarrow> c0(''email'' \<mapsto> group0 line m));
               c2 = (case re_search True PHONE_RE line of
                       None \<Rightarrow> c1 | Some m \<Rightarrow> c1(''phone'' \<mapsto> group0 line m));
               c3 = (case re_search True NAME_PATTERN line of
                       None \<Rightarrow> c2
                     | Some m \<Rightarrow> c2(''name'' \<mapsto> strip (or_empty (group1 line m))))
           in if dom c3 \<noteq> {} then [c3] else [])"

definition extract_candidates_via_text :: "soup \<Rightarrow> contact list" where
  "extract_candidates_via_text sp =
     concat (map line_contact (split_on CHR 0x0A (get_text sp)))"

type_synonym contact_key = "string option \<times> string option \<times> string option"

definition candidate_key :: "contact \<Rightarrow> contact_key" where
  \<comment> \<open>the \<open>key\<close> of the loop body of \<open>extract_contacts\<close>\<close>
  "candidate_key contact =
     (if truthy (contact ''name'') then Some (lower (strip (dict_get contact ''name'' ''''))) else None,
      if truthy (contact ''email'') then Some (lower (strip (dict_get contact ''email'' ''''))) else None,
      if truthy (contact ''phone'') then Some (strip (dict_get contact ''phone'' '''')) else None)"

fun any_key :: "contact_key \<Rightarrow> bool" where
  \<comment> \<open>\<open>any(key)\<close>\<close>
  "any_key (n, e, p) = (truthy n \<or> truthy e \<or> truthy p)"

fun unique_contacts :: "string \<Rightarrow> contact_key set \<Rightarrow> contact list \<Rightarrow> contact list" where
  \<comment> \<open>the \<open>for contact in all_contacts\<close> loop; the result is what it appends to
      \<open>unique_contacts\<close>\<close>
  "unique_contacts source_url seen [] = []"
| "unique_contacts source_url seen (contact # rest) =
     (let key = candidate_key contact
      in if \<not> any_key key \<or> key \<in> seen then unique_contacts source_url seen rest
         else (contact(''source_url'' \<mapsto> source_url))
                # unique_contacts source_url (insert key seen) rest)"


section \<open>main.py\<close>



section \<open>Vocabulary of the properties\<close>



definition name_only :: "contact \<Rightarrow> bool" where
  \<comment> \<open>the email is absent or empty, and the phone is absent or canonicalizes to nothing\<close>
  "name_only r =
     ((r ''email'' = None \<or> r ''email'' = Some [])
      \<and> (r ''phone'' = None \<or> canonical_phone (the (r ''phone'')) = []))"

section \<open>A sample document\<close>


section \<open>The matcher\<close>

lemma run_Rep_cases:
  assumes "st' \<in> set (run ic s (Rep lo hi a) (i, g))" and "hi \<noteq> Some 0"
  shows "(\<exists>m \<in> set (filter (\<lambda>(j, _). i < j \<and> j \<le> length s) (run ic s a (i, g))).
            st' \<in> set (run ic s (Rep (lo - 1) (map_option (\<lambda>h. h - 1) hi) a) m))
         \<or> (lo = 0 \<and> st' = (i, g))"
proof -
  from assms have "st' \<in> set (concat (map (run ic s (Rep (lo - 1) (map_option (\<lambda>h. h - 1) hi) a))
                       (filter (\<lambda>(j, _). i < j \<and> j \<le> length s) (run ic s a (i, g))))
           @ (if lo = 0 then [(i, g)] else []))"
    by (simp only: run.simps(8) if_False)
  then show ?thesis
    by (cases "lo = 0") (auto simp del: run.simps)
qed

lemma run_bounds:
  "st' \<in> set (run ic s r st) \<Longrightarrow> fst st \<le> length s \<Longrightarrow>
     fst st \<le> fst st' \<and> fst st' \<le> length s"
proof (induction ic s r st arbitrary: st' rule: run.induct)
  case (1 ic s st)
  then show ?case by simp
next
  case (2 ic s a i g)
  then show ?case by (simp split: if_splits)
next
  case (3 ic s items i g)
  then show ?case by (simp split: if_splits)
next
  case (4 ic s i g)
  then show ?case by (simp split: if_splits)
next
  case (5 ic s a b st)
  from "5.prems"(1) obtain m where m: "m \<in> set (run ic s a st)" and e: "st' \<in> set (run ic s b m)"
    by auto
  from "5.IH"(1) [OF m "5.prems"(2)] have b1: "fst st \<le> fst m \<and> fst m \<le> length s" .
  from "5.IH"(2) [OF m e] b1 have "fst m \<le> fst st' \<and> fst st' \<le> length s" by simp
  with b1 show ?case by simp
next
  case (6 ic s a b st)
  from "6.prems"(1) have "st' \<in> set (run ic s a st) \<or> st' \<in> set (run ic s b st)" by simp
  then show ?case
  proof
    assume "st' \<in> set (run ic s a st)"
    then show ?thesis using "6.prems"(2) by (rule "6.IH"(1))
  next
    assume "st' \<in> set (run ic s b st)"
    then show ?thesis using "6.prems"(2) by (rule "6.IH"(2))
  qed
next
  case (7 ic s a i g)
  from "7.prems"(1) obtain j g' where m: "(j, g') \<in> set (run ic s a (i, g))" and e: "st' = (j, Some (i, j))"
    by auto
  from "7.IH" [OF m] "7.prems"(2) e show ?case by simp
next
  case (8 ic s lo hi a i g)
  show ?case
  proof (cases "hi = Some 0")
    case True
    with "8.prems" show ?thesis by simp
  next
    case False
    from run_Rep_cases [OF "8.prems"(1) False] show ?thesis
    proof
      assume "\<exists>m \<in> set (filter (\<lambda>(j, _). i < j \<and> j \<le> length s) (run ic s a (i, g))).
            st' \<in> set (run ic s (Rep (lo - 1) (map_option (\<lambda>h. h - 1) hi) a) m)"
      then obtain m where m: "m \<in> set (filter (\<lambda>(j, _). i < j \<and> j \<le> length s) (run ic s a (i, g)))"
        and e: "st' \<in> set (run ic s (Rep (lo - 1) (map_option (\<lambda>h. h - 1) hi) a) m)"
        by blast
      from m have b1: "i < fst m \<and> fst m \<le> length s" by (auto simp del: run.simps)
      from "8.IH"(2) [OF False m e] b1
      have "fst m \<le> fst st' \<and> fst st' \<le> length s" by simp
      with b1 show ?thesis by simp
    next
      assume "lo = 0 \<and> st' = (i, g)"
      with "8.prems"(2) show ?thesis by simp
    qed
  qed
qed

lemma run_progress:
  "consuming r \<Longrightarrow> st' \<in> set (run ic s r st) \<Longrightarrow> fst st \<le> length s \<Longrightarrow> fst st < fst st'"
proof (induction ic s r st arbitrary: st' rule: run.induct)
  case (1 ic s st)
  then show ?case by simp
next
  case (2 ic s a i g)
  then show ?case by (simp split: if_splits)
next
  case (3 ic s items i g)
  then show ?case by (simp split: if_splits)
next
  case (4 ic s i g)
  then show ?case by simp
next
  case (5 ic s a b st)
  from "5.prems"(2) obtain m where m: "m \<in> set (run ic s a st)" and e: "st' \<in> set (run ic s b m)"
    by auto
  from run_bounds [OF m "5.prems"(3)] have b1: "fst st \<le> fst m \<and> fst m \<le> length s" .
  from run_bounds [OF e] b1 have b2: "fst m \<le> fst st'" by simp
  from "5.prems"(1) have "consuming a \<or> consuming b" by simp
  then show ?case
  proof
    assume "consuming a"
    from "5.IH"(1) [OF this m "5.prems"(3)] b2 show ?thesis by simp
  next
    assume "consuming b"
    from "5.IH"(2) [OF m this e] b1 show ?thesis by simp
  qed
next
  case (6 ic s a b st)
  from "6.prems"(1) have ca: "consuming a" and cb: "consuming b" by simp_all
  from "6.prems"(2) have "st' \<in> set (run ic s a st) \<or> st' \<in> set (run ic s b st)" by simp
  then show ?case
  proof
    assume "st' \<in> set (run ic s a st)"
    with ca show ?thesis using "6.prems"(3) by (rule "6.IH"(1))
  next
    assume "st' \<in> set (run ic s b st)"
    with cb show ?thesis using "6.prems"(3) by (rule "6.IH"(2))
  qed
next
  case (7 ic s a i g)
  from "7.prems"(2) obtain j g' where m: "(j, g') \<in> set (run ic s a (i, g))" and e: "st' = (j, Some (i, j))"
    by auto
  from "7.prems"(1) have "consuming a" by simp
  from "7.IH" [OF this m] "7.prems"(3) e show ?case by simp
next
  case (8 ic s lo hi a i g)
  from "8.prems"(1) have lo: "0 < lo" and hi: "hi \<noteq> Some 0" by simp_all
  from run_Rep_cases [OF "8.prems"(2) hi] lo obtain m where
      m: "m \<in> set (filter (\<lambda>(j, _). i < j \<and> j \<le> length s) (run ic s a (i, g)))"
      and e: "st' \<in> set (run ic s (Rep (lo - 1) (map_option (\<lambda>h. h - 1) hi) a) m)"
    by blast
  from m have b1: "i < fst m \<and> fst m \<le> length s" by (auto simp del: run.simps)
  from run_bounds [OF e] b1 have "fst m \<le> fst st'" by simp
  with b1 show ?case by simp
qed

lemma iteration_filter_id:
  assumes "consuming a" and "i \<le> length s"
  shows "filter (\<lambda>(j, _). i < j \<and> j \<le> length s) (run ic s a (i, g)) = run ic s a (i, g)"
proof -
  have "\<And>m. m \<in> set (run ic s a (i, g)) \<Longrightarrow> (case m of (j, _) \<Rightarrow> i < j \<and> j \<le> length s)"
  proof -
    fix m
    assume m: "m \<in> set (run ic s a (i, g))"
    from run_progress [OF assms(1) m] run_bounds [OF m] assms(2)
    have "i < fst m \<and> fst m \<le> length s" by simp
    then show "case m of (j, _) \<Rightarrow> i < j \<and> j \<le> length s"
      by (simp add: case_prod_beta)
  qed
  then show ?thesis by (simp only: filter_id_conv) blast
qed

lemma patterns_repeats_consume:
  "repeats_consume EMAIL_RE \<and> repeats_consume PHONE_RE \<and> repeats_consume NAME_PATTERN"
  by (simp add: EMAIL_RE_def PHONE_RE_def NAME_PATTERN_def sep_def Opt_def Plus_def Str_def)

section \<open>Phone canonicalization\<close>

lemma isdigit_not_isspace: "isdigit c \<Longrightarrow> \<not> isspace c"
  by (auto simp: isdigit_def isspace_def Let_def)

lemma plus_not_isdigit: "\<not> isdigit CHR ''+''"
  by (simp add: isdigit_def)

lemma plus_not_isspace: "\<not> isspace CHR ''+''"
  by (simp add: isspace_def)

lemma filter_dropWhile_disjoint:
  "(\<And>c. Q c \<Longrightarrow> \<not> P c) \<Longrightarrow> filter P (dropWhile Q xs) = filter P xs"
  by (induction xs) auto

lemma filter_isdigit_strip: "filter isdigit (strip s) = filter isdigit s"
proof -
  have sp: "\<And>c. isspace c \<Longrightarrow> \<not> isdigit c"
    using isdigit_not_isspace by blast
  have "filter isdigit (strip s) = rev (filter isdigit (dropWhile isspace (rev (dropWhile isspace s))))"
    by (simp add: strip_def rev_filter)
  also have "\<dots> = rev (filter isdigit (rev (dropWhile isspace s)))"
    by (simp add: filter_dropWhile_disjoint [OF sp])
  also have "\<dots> = filter isdigit (dropWhile isspace s)"
    by (simp add: rev_filter)
  also have "\<dots> = filter isdigit s"
    by (simp add: filter_dropWhile_disjoint [OF sp])
  finally show ?thesis .
qed

lemma dropWhile_none: "list_all (\<lambda>c. \<not> P c) xs \<Longrightarrow> dropWhile P xs = xs"
  by (cases xs) auto

lemma strip_no_space: "list_all (\<lambda>c. \<not> isspace c) s \<Longrightarrow> strip s = s"
  by (simp add: strip_def dropWhile_none)

lemma digits_no_space: "list_all (\<lambda>c. \<not> isspace c) (filter isdigit s)"
  by (induction s) (auto simp: isdigit_not_isspace)

lemma digits_not_plus: "\<not> startswith (filter isdigit s) ''+''"
proof (cases "filter isdigit s")
  case Nil
  then show ?thesis by (simp add: startswith_def)
next
  case (Cons d ds)
  then have "d \<in> set (filter isdigit s)" by simp
  then have "isdigit d" by simp
  then have "d \<noteq> CHR ''+''" using plus_not_isdigit by auto
  with Cons show ?thesis by (simp add: startswith_def)
qed

lemma canonical_phone_digits:
  "canonical_phone x =
     (if startswith (strip x) ''+'' \<and> filter isdigit x \<noteq> []
      then ''+'' @ filter isdigit x else filter isdigit x)"
  by (cases "x = []") (simp_all add: canonical_phone_def Let_def filter_isdigit_strip)

text \<open>
  Claim C5. For every string \<open>x\<close>, \<open>canonical_phone x\<close> is the digit characters of \<open>x\<close>
  in their original order, with a \<open>+\<close> in front exactly when the trimmed input starts
  with \<open>+\<close> and there is at least one digit; it is empty when \<open>x\<close> is empty or has no
  digit; and the two inputs of Scenario 6 canonicalize as the specification says.
\<close>

theorem canonical_phone_spec:
  "canonical_phone x =
     (if startswith (strip x) ''+'' \<and> filter isdigit x \<noteq> []
      then ''+'' @ filter isdigit x else filter isdigit x)
   \<and> (x = [] \<or> filter isdigit x = [] \<longrightarrow> canonical_phone x = [])
   \<and> canonical_phone ''+1 (555) 123-4567'' = ''+15551234567''
   \<and> canonical_phone ''555.123.4567'' = ''5551234567''"
proof -
  have ex1: "canonical_phone ''+1 (555) 123-4567'' = ''+15551234567''"
    by (simp add: canonical_phone_def strip_def startswith_def isspace_def isdigit_def)
  have ex2: "canonical_phone ''555.123.4567'' = ''5551234567''"
    by (simp add: canonical_phone_def strip_def startswith_def isspace_def isdigit_def)
  have empty: "x = [] \<or> filter isdigit x = [] \<longrightarrow> canonical_phone x = []"
    by (auto simp: canonical_phone_digits)
  show ?thesis
    using canonical_phone_digits [of x] empty ex1 ex2 by blast
qed

theorem canonical_phone_spec_witness:
  "canonical_phone ''  +44 20-7946 x'' = ''+44207946'' \<and> canonical_phone ''n/a'' = []"
  using canonical_phone_spec [of "''  +44 20-7946 x''"] canonical_phone_spec [of "''n/a''"]
  by (simp add: strip_def startswith_def isspace_def isdigit_def)

text \<open>
  Claim C8. Phone canonicalization is a projection: canonicalizing a canonical phone
  changes nothing.
\<close>

theorem canonical_phone_projection:
  "canonical_phone (canonical_phone x) = canonical_phone x"
proof -
  define d where "d = filter isdigit x"
  have fd: "filter isdigit d = d" by (simp add: d_def)
  have sd: "strip d = d" unfolding d_def by (rule strip_no_space [OF digits_no_space])
  have nd: "\<not> startswith d ''+''" unfolding d_def by (rule digits_not_plus)
  have fpd: "filter isdigit (''+'' @ d) = d" by (simp add: plus_not_isdigit fd)
  have "list_all (\<lambda>c. \<not> isspace c) (''+'' @ d)"
    using digits_no_space [of x] by (simp add: plus_not_isspace d_def)
  then have spd: "strip (''+'' @ d) = ''+'' @ d" by (rule strip_no_space)
  have ppd: "startswith (''+'' @ d) ''+''" by (simp add: startswith_def)
  show ?thesis
  proof (cases "startswith (strip x) ''+'' \<and> d \<noteq> []")
    case True
    then have r: "canonical_phone x = ''+'' @ d"
      by (simp add: canonical_phone_digits d_def)
    have "canonical_phone (''+'' @ d) = ''+'' @ d"
      unfolding canonical_phone_digits [of "''+'' @ d"] fpd spd using True ppd by simp
    with r show ?thesis by simp
  next
    case False
    then have r: "canonical_phone x = d"
      by (auto simp: canonical_phone_digits d_def)
    have "canonical_phone d = d"
      unfolding canonical_phone_digits [of d] fd sd using nd by simp
    with r show ?thesis by simp
  qed
qed

section \<open>Stage-2 deduplication\<close>

lemma dedupe_loop_nths:
  "dedupe_loop S rs =
     nths rs {i. i < length rs \<and> dedupe_key (rs ! i) \<notin> S
                 \<and> (\<forall>j<i. dedupe_key (rs ! j) \<noteq> dedupe_key (rs ! i))}"
proof (induction rs arbitrary: S)
  case Nil
  then show ?case by simp
next
  case (Cons r rs)
  let ?k = "dedupe_key r"
  let ?A = "\<lambda>S rs. {i. i < length rs \<and> dedupe_key (rs ! i) \<notin> S
                        \<and> (\<forall>j<i. dedupe_key (rs ! j) \<noteq> dedupe_key (rs ! i))}"
  have shift: "{j. Suc j \<in> ?A S (r # rs)} = ?A (insert ?k S) rs"
  proof (rule set_eqI)
    fix j
    have "(\<forall>i<Suc j. dedupe_key ((r # rs) ! i) \<noteq> dedupe_key (rs ! j))
          \<longleftrightarrow> (?k \<noteq> dedupe_key (rs ! j) \<and> (\<forall>i<j. dedupe_key (rs ! i) \<noteq> dedupe_key (rs ! j)))"
      by (simp add: All_less_Suc2)
    then show "j \<in> {j. Suc j \<in> ?A S (r # rs)} \<longleftrightarrow> j \<in> ?A (insert ?k S) rs"
      by auto
  qed
  show ?case
  proof (cases "?k \<in> S")
    case True
    then have same: "?A (insert ?k S) rs = ?A S rs"
      by (simp add: insert_absorb)
    have "0 \<notin> ?A S (r # rs)" using True by simp
    then have "nths (r # rs) (?A S (r # rs)) = nths rs (?A S rs)"
      unfolding nths_Cons shift same by simp
    moreover have "dedupe_loop S (r # rs) = dedupe_loop S rs"
      using True by simp
    ultimately show ?thesis using Cons.IH [of S] by simp
  next
    case False
    have "0 \<in> ?A S (r # rs)" using False by simp
    then have "nths (r # rs) (?A S (r # rs)) = r # nths rs (?A (insert ?k S) rs)"
      unfolding nths_Cons shift by simp
    moreover have "dedupe_loop S (r # rs) = r # dedupe_loop (insert ?k S) rs"
      using False by simp
    ultimately show ?thesis using Cons.IH [of "insert ?k S"] by simp
  qed
qed

lemma dedupe_loop_find:
  "find (\<lambda>r. dedupe_key r = k) (dedupe_loop S rs) =
     (if k \<in> S then None else find (\<lambda>r. dedupe_key r = k) rs)"
  by (induction rs arbitrary: S) (auto simp: Let_def)

lemma dedupe_loop_keys_fresh: "r \<in> set (dedupe_loop S rs) \<Longrightarrow> dedupe_key r \<notin> S"
  by (induction rs arbitrary: S) (auto simp: Let_def split: if_splits)

lemma dedupe_loop_distinct: "distinct (map dedupe_key (dedupe_loop S rs))"
proof (induction rs arbitrary: S)
  case Nil
  then show ?case by simp
next
  case (Cons r rs)
  have "dedupe_key r \<notin> dedupe_key ` set (dedupe_loop (insert (dedupe_key r) S) rs)"
  proof
    assume "dedupe_key r \<in> dedupe_key ` set (dedupe_loop (insert (dedupe_key r) S) rs)"
    then obtain q where q: "q \<in> set (dedupe_loop (insert (dedupe_key r) S) rs)"
      and eq: "dedupe_key r = dedupe_key q" by blast
    from dedupe_loop_keys_fresh [OF q] eq show False by simp
  qed
  with Cons.IH show ?case by (simp add: Let_def)
qed

lemma dedupe_loop_fixed:
  "distinct (map dedupe_key rs) \<Longrightarrow> dedupe_key ` set rs \<inter> S = {} \<Longrightarrow> dedupe_loop S rs = rs"
  by (induction rs arbitrary: S) (auto simp: Let_def)

lemma dedupe_loop_filter_key:
  "filter (\<lambda>r. dedupe_key r = k) (dedupe_loop S rs) =
     (if k \<in> S then [] else take 1 (filter (\<lambda>r. dedupe_key r = k) rs))"
  by (induction rs arbitrary: S) (auto simp: Let_def)

lemma lower_eq_Nil: "lower s = [] \<longleftrightarrow> s = []"
  by (simp add: lower_def)

lemma name_only_key: "name_only r \<longleftrightarrow> dedupe_key r = ([], [])"
proof -
  have e: "lower (or_empty (r ''email'')) = [] \<longleftrightarrow> (r ''email'' = None \<or> r ''email'' = Some [])"
    by (cases "r ''email''") (simp_all add: or_empty_def lower_eq_Nil)
  have p: "canonical_phone (or_empty (r ''phone'')) = []
           \<longleftrightarrow> (r ''phone'' = None \<or> canonical_phone (the (r ''phone'')) = [])"
    by (cases "r ''phone''") (simp_all add: or_empty_def canonical_phone_def)
  show ?thesis
    by (simp add: name_only_def dedupe_key_def Let_def e p)
qed

text \<open>
  Claim C7. Stage-2 deduplication is idempotent: deduplicating a deduplicated list gives the
  same list.
\<close>

theorem dedupe_records_idempotent:
  "dedupe_records (dedupe_records rs) = dedupe_records rs"
  unfolding dedupe_records_def
  by (rule dedupe_loop_fixed [OF dedupe_loop_distinct]) simp

text \<open>
  Claim C10. A record whose email is absent or empty and whose phone is absent or
  canonicalizes to the empty string has the Stage-2 key \<open>('', '')\<close>; of all such records
  of the input only the first survives \<open>dedupe_records\<close>, whatever their names, so at most
  one does.
\<close>

theorem dedupe_records_name_only:
  "(name_only r \<longrightarrow> dedupe_key r = ([], []))
   \<and> filter name_only (dedupe_records rs) = take 1 (filter name_only rs)
   \<and> length (filter name_only (dedupe_records rs)) \<le> 1"
proof -
  have eq: "name_only = (\<lambda>r. dedupe_key r = ([], []))"
    by (rule ext) (rule name_only_key)
  have first: "filter name_only (dedupe_records rs) = take 1 (filter name_only rs)"
    unfolding eq dedupe_records_def by (simp add: dedupe_loop_filter_key)
  have "length (take 1 (filter name_only rs)) \<le> 1" by simp
  with first show ?thesis by (simp add: name_only_key)
qed

theorem dedupe_records_name_only_witness:
  "name_only [''name'' \<mapsto> ''Ann Lee'']
   \<and> dedupe_key [''name'' \<mapsto> ''Ann Lee''] = ([], [])
   \<and> filter name_only
        (dedupe_records
           [[''name'' \<mapsto> ''Ann Lee''], [''name'' \<mapsto> ''Bo Chan'', ''phone'' \<mapsto> ''n/a'']])
      = [[''name'' \<mapsto> ''Ann Lee'']]"
proof -
  have n1: "name_only [''name'' \<mapsto> ''Ann Lee'']"
    by (simp add: name_only_def)
  have n2: "name_only [''name'' \<mapsto> ''Bo Chan'', ''phone'' \<mapsto> ''n/a'']"
    by (simp add: name_only_def canonical_phone_def strip_def startswith_def isspace_def isdigit_def)
  show ?thesis
    using n1 n2
      dedupe_records_name_only [of "[''name'' \<mapsto> ''Ann Lee'']"
        "[[''name'' \<mapsto> ''Ann Lee''], [''name'' \<mapsto> ''Bo Chan'', ''phone'' \<mapsto> ''n/a'']]"]
    by simp
qed

section \<open>Normalization\<close>






lemma name_micro: "normalize_name [CHR 0xB5, CHR ''m''] = None"
  by code_simp









section \<open>Stage-1 deduplication\<close>







lemma unique_contacts_nths:
  "unique_contacts u S cs =
     map (\<lambda>c. c(''source_url'' \<mapsto> u))
       (nths cs {i. i < length cs \<and> any_key (candidate_key (cs ! i)) \<and> candidate_key (cs ! i) \<notin> S
                    \<and> (\<forall>j<i. candidate_key (cs ! j) \<noteq> candidate_key (cs ! i))})"
proof (induction cs arbitrary: S)
  case Nil
  then show ?case by simp
next
  case (Cons c cs)
  let ?k = "candidate_key c"
  let ?A = "\<lambda>S cs. {i. i < length cs \<and> any_key (candidate_key (cs ! i)) \<and> candidate_key (cs ! i) \<notin> S
                        \<and> (\<forall>j<i. candidate_key (cs ! j) \<noteq> candidate_key (cs ! i))}"
  have all_Suc: "\<And>j. (\<forall>i<Suc j. candidate_key ((c # cs) ! i) \<noteq> candidate_key (cs ! j))
          \<longleftrightarrow> (?k \<noteq> candidate_key (cs ! j) \<and> (\<forall>i<j. candidate_key (cs ! i) \<noteq> candidate_key (cs ! j)))"
    by (simp add: All_less_Suc2)
  show ?case
  proof (cases "\<not> any_key ?k \<or> ?k \<in> S")
    case True
    have shift: "{j. Suc j \<in> ?A S (c # cs)} = ?A S cs"
    proof (rule set_eqI)
      fix j
      show "j \<in> {j. Suc j \<in> ?A S (c # cs)} \<longleftrightarrow> j \<in> ?A S cs"
        using True all_Suc [of j] by auto
    qed
    have "0 \<notin> ?A S (c # cs)" using True by auto
    then have "nths (c # cs) (?A S (c # cs)) = nths cs (?A S cs)"
      unfolding nths_Cons shift by simp
    then have n: "nths (c # cs) (?A S (c # cs)) = nths cs (?A S cs)" .
    have l: "unique_contacts u S (c # cs) = unique_contacts u S cs"
      using True by (simp add: Let_def)
    show ?thesis unfolding l n by (rule Cons.IH)
  next
    case False
    have shift: "{j. Suc j \<in> ?A S (c # cs)} = ?A (insert ?k S) cs"
    proof (rule set_eqI)
      fix j
      show "j \<in> {j. Suc j \<in> ?A S (c # cs)} \<longleftrightarrow> j \<in> ?A (insert ?k S) cs"
        using all_Suc [of j] by auto
    qed
    have "0 \<in> ?A S (c # cs)" using False by simp
    then have "nths (c # cs) (?A S (c # cs)) = c # nths cs (?A (insert ?k S) cs)"
      unfolding nths_Cons shift by simp
    then have n: "nths (c # cs) (?A S (c # cs)) = c # nths cs (?A (insert ?k S) cs)" .
    have l: "unique_contacts u S (c # cs) =
        (c(''source_url'' \<mapsto> u)) # unique_contacts u (insert ?k S) cs"
      using False by (simp add: Let_def)
    show ?thesis unfolding l n Cons.IH [of "insert ?k S"] by (simp only: list.map)
  qed
qed


section \<open>The table extractor on a header in the first column\<close>

lemma no_email_Name: "re_search True EMAIL_RE ''Name'' = None" by code_simp
lemma no_email_Department: "re_search True EMAIL_RE ''Department'' = None" by code_simp
lemma no_email_Alice: "re_search True EMAIL_RE ''Alice Johnson'' = None" by code_simp
lemma no_email_Sales: "re_search True EMAIL_RE ''Sales'' = None" by code_simp
lemma no_phone_Name: "re_search True PHONE_RE ''Name'' = None" by code_simp
lemma no_phone_Department: "re_search True PHONE_RE ''Department'' = None" by code_simp
lemma no_phone_Alice: "re_search True PHONE_RE ''Alice Johnson'' = None" by code_simp
lemma no_phone_Sales: "re_search True PHONE_RE ''Sales'' = None" by code_simp

lemma row_header_Name:
  "row_contact (Some 0, None, None) [''Name'', ''Department''] = [[''name'' \<mapsto> ''Name'']]"
  by (simp add: row_contact_def put_cell_def fill_from_def truthy_def Let_def
      no_email_Name no_email_Department no_phone_Name no_phone_Department)

lemma row_Alice:
  "row_contact (Some 0, None, None) [''Alice Johnson'', ''Sales'']
     = [[''name'' \<mapsto> ''Alice Johnson'']]"
  by (simp add: row_contact_def put_cell_def fill_from_def truthy_def Let_def
      no_email_Alice no_email_Sales no_phone_Alice no_phone_Sales)

lemma table_Name_Department:
  "table_contacts [[''Name'', ''Department''], [''Alice Johnson'', ''Sales'']] =
     [[''name'' \<mapsto> ''Name''], [''name'' \<mapsto> ''Alice Johnson'']]"
proof -
  have cols: "map_columns (None, None, None)
      (enumerate 0 (map lower (hd [[''Name'', ''Department''], [''Alice Johnson'', ''Sales'']])))
      = (Some 0, None, None)"
    by code_simp
  show ?thesis
    unfolding table_contacts_def Let_def cols
    by (simp add: idx_truthy_def row_header_Name row_Alice)
qed

lemma row_Alice_second:
  "row_contact (Some (Suc 0), None, None) [''Sales'', ''Alice Johnson'']
     = [[''name'' \<mapsto> ''Alice Johnson'']]"
  by (simp add: row_contact_def put_cell_def fill_from_def truthy_def Let_def
      no_email_Alice no_email_Sales no_phone_Alice no_phone_Sales)

lemma table_Department_Name:
  "table_contacts [[''Department'', ''Name''], [''Sales'', ''Alice Johnson'']] =
     [[''name'' \<mapsto> ''Alice Johnson'']]"
proof -
  have cols: "map_columns (None, None, None)
      (enumerate 0 (map lower (hd [[''Department'', ''Name''], [''Sales'', ''Alice Johnson'']])))
      = (Some 1, None, None)"
    by code_simp
  show ?thesis
    unfolding table_contacts_def Let_def cols
    by (simp add: idx_truthy_def row_Alice_second)
qed

text \<open>
  Claim C1. A first row with a field keyword is a header and is left out of the data rows.
  The code does not do this when the only matching column is column 0: for the table
  \<^verbatim>\<open><table><tr><th>Name</th><th>Department</th></tr><tr><td>Alice Johnson</td><td>Sales</td></tr></table>\<close>
  \<open>name_idx\<close> is 0, \<open>any([0, None, None])\<close> is false, the data rows start at row zero and
  the header row comes out as a contact named \<open>Name\<close>. With the two columns exchanged
  the header row is left out, as the claim says.
\<close>

theorem first_column_header_kept_as_data:
  "extract_from_tables
     \<lparr>tables = [[[''Name'', ''Department''], [''Alice Johnson'', ''Sales'']]],
      anchors = [], elements = [], get_text = ''NameDepartmentAlice JohnsonSales''\<rparr>
   = [[''name'' \<mapsto> ''Name''], [''name'' \<mapsto> ''Alice Johnson'']]
   \<and> extract_from_tables
     \<lparr>tables = [[[''Department'', ''Name''], [''Sales'', ''Alice Johnson'']]],
      anchors = [], elements = [], get_text = ''DepartmentNameSalesAlice Johnson''\<rparr>
   = [[''name'' \<mapsto> ''Alice Johnson'']]"
  by (simp add: extract_from_tables_def table_Name_Department table_Department_Name)

section \<open>The mailto extractor\<close>

lemma upper_href_found:
  "re_match True (Str ''mailto:'') ''MAILTO:bob@example.com'' = Some (0, 7, None)"
  by code_simp

lemma upper_href_email:
  "strip (hd (split_on CHR ''?'' (remove_all ''mailto:'' ''MAILTO:bob@example.com'')))
     = ''MAILTO:bob@example.com''"
  by code_simp

lemma upper_href_no_match: "re_match True EMAIL_RE ''MAILTO:bob@example.com'' = None"
  by code_simp

lemma two_href_found:
  "re_match True (Str ''mailto:'') ''mailto:bob@example.com,alice@example.com'' = Some (0, 7, None)"
  by code_simp

lemma two_href_email:
  "strip (hd (split_on CHR ''?'' (remove_all ''mailto:'' ''mailto:bob@example.com,alice@example.com'')))
     = ''bob@example.com,alice@example.com''"
  by code_simp

lemma two_href_match:
  "re_match True EMAIL_RE ''bob@example.com,alice@example.com'' = Some (0, 15, None)"
  by code_simp

lemma plain_href_found:
  "re_match True (Str ''mailto:'') ''mailto:bob@example.com'' = Some (0, 7, None)"
  by code_simp

lemma plain_href_email:
  "strip (hd (split_on CHR ''?'' (remove_all ''mailto:'' ''mailto:bob@example.com'')))
     = ''bob@example.com''"
  by code_simp

lemma plain_href_match: "re_match True EMAIL_RE ''bob@example.com'' = Some (0, 15, None)"
  by code_simp

text \<open>
  Claim C2. A mailto anchor gives a record exactly when what follows the prefix, up to a
  query string, is an email address as a whole. The code removes only the lower-case
  \<open>mailto:\<close>, so \<^verbatim>\<open><a href="MAILTO:bob@example.com">Bob</a>\<close> gives no record, while the
  same anchor with a lower-case prefix gives one; and it tests the remainder with
  \<open>match\<close>, which accepts an address followed by anything, so
  \<^verbatim>\<open><a href="mailto:bob@example.com,alice@example.com">Team</a>\<close> gives a record whose email
  is the whole remainder.
\<close>

theorem mailto_upper_case_and_prefix_match:
  "extract_mailto_links
     \<lparr>tables = [], anchors = [(''MAILTO:bob@example.com'', ''Bob'')], elements = [],
      get_text = ''Bob''\<rparr> = []
   \<and> extract_mailto_links
     \<lparr>tables = [], anchors = [(''mailto:bob@example.com'', ''Bob'')], elements = [],
      get_text = ''Bob''\<rparr>
     = [[''email'' \<mapsto> ''bob@example.com'', ''name'' \<mapsto> ''Bob'']]
   \<and> extract_mailto_links
     \<lparr>tables = [], anchors = [(''mailto:bob@example.com,alice@example.com'', ''Team'')],
      elements = [], get_text = ''Team''\<rparr>
     = [[''email'' \<mapsto> ''bob@example.com,alice@example.com'', ''name'' \<mapsto> ''Team'']]"
proof -
  have a: "mailto_contact (''MAILTO:bob@example.com'', ''Bob'') = []"
    unfolding mailto_contact_def prod.case Let_def upper_href_email upper_href_no_match by simp
  have b: "mailto_contact (''mailto:bob@example.com,alice@example.com'', ''Team'')
      = [[''email'' \<mapsto> ''bob@example.com,alice@example.com'', ''name'' \<mapsto> ''Team'']]"
    unfolding mailto_contact_def prod.case Let_def two_href_email two_href_match by simp
  have c: "mailto_contact (''mailto:bob@example.com'', ''Bob'')
      = [[''email'' \<mapsto> ''bob@example.com'', ''name'' \<mapsto> ''Bob'']]"
    unfolding mailto_contact_def prod.case Let_def plain_href_email plain_href_match by simp
  show ?thesis
    by (simp add: extract_mailto_links_def upper_href_found two_href_found plain_href_found a b c)
qed

section \<open>The name-label pattern\<close>

lemma lines_two:
  "split_on CHR 0x0A (''name: john doe'' @ [CHR 0x0A] @ ''Contact: Bob Singh for details'')
     = [''name: john doe'', ''Contact: Bob Singh for details'']"
  by code_simp

lemma john_strip: "strip ''name: john doe'' = ''name: john doe''" by code_simp
lemma john_email: "re_search True EMAIL_RE ''name: john doe'' = None" by code_simp
lemma john_phone: "re_search True PHONE_RE ''name: john doe'' = None" by code_simp
lemma john_name: "re_search True NAME_PATTERN ''name: john doe'' = Some (0, 14, Some (6, 14))"
  by code_simp
lemma john_group: "strip (or_empty (group1 ''name: john doe'' (0, 14, Some (6, 14)))) = ''john doe''"
  by code_simp

lemma bob_strip: "strip ''Contact: Bob Singh for details'' = ''Contact: Bob Singh for details''"
  by code_simp
lemma bob_email: "re_search True EMAIL_RE ''Contact: Bob Singh for details'' = None" by code_simp
lemma bob_phone: "re_search True PHONE_RE ''Contact: Bob Singh for details'' = None" by code_simp
lemma bob_name:
  "re_search True NAME_PATTERN ''Contact: Bob Singh for details'' = Some (0, 30, Some (9, 30))"
  by code_simp
lemma bob_group:
  "strip (or_empty (group1 ''Contact: Bob Singh for details'' (0, 30, Some (9, 30))))
     = ''Bob Singh for details''"
  by code_simp

lemma john_line: "line_contact ''name: john doe'' = [[''name'' \<mapsto> ''john doe'']]"
  unfolding line_contact_def Let_def john_strip john_email john_phone john_name option.case
    john_group
  by simp

lemma bob_line:
  "line_contact ''Contact: Bob Singh for details'' = [[''name'' \<mapsto> ''Bob Singh for details'']]"
  unfolding line_contact_def Let_def bob_strip bob_email bob_phone bob_name option.case
    bob_group
  by simp

text \<open>
  Claim C3. The name-label pattern captures capitalized words only. Under
  \<open>re.IGNORECASE\<close> the classes \<open>[A-Z]\<close> and \<open>[a-z]\<close> both match every letter, so for the
  text of \<^verbatim>\<open><p>name: john doe</p><p>Contact: Bob Singh for details</p>\<close>, one paragraph
  per line, the code captures \<open>john doe\<close> and \<open>Bob Singh for details\<close>.
\<close>

theorem name_label_ignores_capitalization:
  "extract_candidates_via_text
     \<lparr>tables = [], anchors = [], elements = [],
      get_text = ''name: john doe'' @ [CHR 0x0A] @ ''Contact: Bob Singh for details''\<rparr>
   = [[''name'' \<mapsto> ''john doe''], [''name'' \<mapsto> ''Bob Singh for details'']]"
  unfolding extract_candidates_via_text_def soup.simps lines_two
  by (simp add: john_line bob_line)

section \<open>Normalization and content\<close>


















section \<open>A phone without a digit\<close>














section \<open>First occurrence\<close>

text \<open>
  Claim C6. Both deduplications keep the first occurrence of each key, in the order of the
  input. Stage 1 returns, stamped with the source URL, the candidates that have a
  non-empty key and no earlier candidate with the same key; Stage 2 returns the records
  that have no earlier record with the same key. So the record that Stage 2 keeps for a
  key is the first record of the input with that key, with that record's name.
\<close>

theorem dedup_keeps_first_occurrence:
  "unique_contacts u {} cs =
     map (\<lambda>c. c(''source_url'' \<mapsto> u))
       (nths cs {i. i < length cs \<and> any_key (candidate_key (cs ! i))
                    \<and> (\<forall>j<i. candidate_key (cs ! j) \<noteq> candidate_key (cs ! i))})
   \<and> dedupe_records rs =
       nths rs {i. i < length rs \<and> (\<forall>j<i. dedupe_key (rs ! j) \<noteq> dedupe_key (rs ! i))}
   \<and> find (\<lambda>r. dedupe_key r = k) (dedupe_records rs) = find (\<lambda>r. dedupe_key r = k) rs"
proof -
  have a: "unique_contacts u {} cs =
     map (\<lambda>c. c(''source_url'' \<mapsto> u))
       (nths cs {i. i < length cs \<and> any_key (candidate_key (cs ! i))
                    \<and> (\<forall>j<i. candidate_key (cs ! j) \<noteq> candidate_key (cs ! i))})"
    using unique_contacts_nths [of u "{}" cs] by simp
  have b: "dedupe_records rs =
       nths rs {i. i < length rs \<and> (\<forall>j<i. dedupe_key (rs ! j) \<noteq> dedupe_key (rs ! i))}"
    using dedupe_loop_nths [of "{}" rs] by (simp add: dedupe_records_def)
  have c: "find (\<lambda>r. dedupe_key r = k) (dedupe_records rs) = find (\<lambda>r. dedupe_key r = k) rs"
    by (simp add: dedupe_records_def dedupe_loop_find)
  from a b c show ?thesis by blast
qed

lemma key_first: "dedupe_key [''name'' \<mapsto> ''Ann Lee'', ''email'' \<mapsto> ''x@y.com''] = (''x@y.com'', [])"
  by code_simp

lemma key_second: "dedupe_key [''name'' \<mapsto> ''Ann L'', ''email'' \<mapsto> ''X@Y.com''] = (''x@y.com'', [])"
  by code_simp

lemma cand_first: "candidate_key [''name'' \<mapsto> ''Ann Lee''] = (Some ''ann lee'', None, None)"
  by code_simp

lemma cand_blank: "candidate_key [''phone'' \<mapsto> '' ''] = (None, None, Some [])"
  by code_simp

lemma cand_again:
  "candidate_key [''name'' \<mapsto> ''ann lee '', ''email'' \<mapsto> []] = (Some ''ann lee'', None, None)"
  by code_simp

theorem dedup_keeps_first_occurrence_witness:
  "unique_contacts ''u'' {}
     [[''name'' \<mapsto> ''Ann Lee''], [''phone'' \<mapsto> '' ''], [''name'' \<mapsto> ''ann lee '', ''email'' \<mapsto> []]]
   = [[''name'' \<mapsto> ''Ann Lee'', ''source_url'' \<mapsto> ''u'']]
   \<and> dedupe_records
        [[''name'' \<mapsto> ''Ann Lee'', ''email'' \<mapsto> ''x@y.com''],
         [''name'' \<mapsto> ''Ann L'', ''email'' \<mapsto> ''X@Y.com'']]
     = [[''name'' \<mapsto> ''Ann Lee'', ''email'' \<mapsto> ''x@y.com'']]
   \<and> find (\<lambda>r. dedupe_key r = (''x@y.com'', []))
     (dedupe_records
        [[''name'' \<mapsto> ''Ann Lee'', ''email'' \<mapsto> ''x@y.com''],
         [''name'' \<mapsto> ''Ann L'', ''email'' \<mapsto> ''X@Y.com'']])
     = Some [''name'' \<mapsto> ''Ann Lee'', ''email'' \<mapsto> ''x@y.com'']"
proof -
  let ?cs = "[[''name'' \<mapsto> ''Ann Lee''], [''phone'' \<mapsto> '' ''],
              [''name'' \<mapsto> ''ann lee '', ''email'' \<mapsto> []]]"
  let ?rs = "[[''name'' \<mapsto> ''Ann Lee'', ''email'' \<mapsto> ''x@y.com''],
              [''name'' \<mapsto> ''Ann L'', ''email'' \<mapsto> ''X@Y.com'']]"
  note all = dedup_keeps_first_occurrence
    [where u = "''u''" and cs = ?cs and rs = ?rs and k = "(''x@y.com'', [])"]
  have stage1: "unique_contacts ''u'' {} ?cs = [[''name'' \<mapsto> ''Ann Lee'', ''source_url'' \<mapsto> ''u'']]"
    unfolding all [THEN conjunct1]
    by (simp add: nths_Cons cand_first cand_blank cand_again All_less_Suc truthy_def)
  have stage2: "dedupe_records ?rs = [[''name'' \<mapsto> ''Ann Lee'', ''email'' \<mapsto> ''x@y.com'']]"
    unfolding all [THEN conjunct2, THEN conjunct1]
    by (simp add: nths_Cons key_first key_second All_less_Suc)
  have "find (\<lambda>r. dedupe_key r = (''x@y.com'', [])) ?rs
      = Some [''name'' \<mapsto> ''Ann Lee'', ''email'' \<mapsto> ''x@y.com'']"
    by (simp add: key_first)
  with all [THEN conjunct2, THEN conjunct2] stage1 stage2 show ?thesis by simp
qed

end
